theory Spec2Isabelle
  imports Main "HOL-Library.AList" "HOL-Library.Multiset"
begin

section \<open>Data model\<close>

text \<open>
  The server keeps social posts as plain JSON objects.  A post carries the fields the
  server reads or writes itself: \<open>id\<close>, the optional marker \<open>isMockData\<close> (absent reads
  as false), \<open>text\<close>, \<open>created_at\<close>, \<open>author_id\<close>, \<open>public_metrics\<close> and the embedded
  \<open>author\<close> object.  \<open>created_at\<close> is kept as the instant \<open>new Date(created_at)\<close> denotes,
  in milliseconds; the upstream request asks for that field on every post and every post the
  server builds itself sets it, so posts whose date does not parse are not part of the model.
\<close>

record public_metrics =
  retweet_count :: nat
  reply_count :: nat
  like_count :: nat
  quote_count :: nat

record user =
  user_id :: "string option"
  username :: string
  display_name :: string
  profile_image_url :: "string option"

record tweet =
  tweet_id :: string
  isMockData :: bool
  tweet_text :: string
  created_at :: int
  author_id :: string
  metrics :: public_metrics
  author :: "user option"

text \<open>
  The backing file \<open>tweets_database.json\<close>.  A path of the file system holds nothing
  (\<open>readFile\<close> rejects with \<open>ENOENT\<close>), something that cannot be read (any other rejection
  of \<open>readFile\<close>), text that \<open>JSON.parse\<close> refuses, or a JSON object with an optional
  \<open>tweets\<close> array and the \<open>lastUpdated\<close> stamp.  Posts are plain data, so what
  \<open>JSON.stringify\<close> writes is what \<open>JSON.parse\<close> reads back.
\<close>

record db =
  tweets :: "tweet list option"
  lastUpdated :: int

datatype db_file = Unreadable | Malformed | Parsed db

text \<open>What the server prints with \<open>console.log\<close> and \<open>console.error\<close>.\<close>

datatype log_entry =
    LogLoaded nat
  | ErrorLoading
  | LogSaved nat
  | ErrorSaving
  | LogUsingProvidedToken
  | LogTokenObtained
  | ErrorTokenFailed
  | ErrorTokenException
  | LogNoToken
  | LogFetching
  | ErrorTwitterApi int
  | LogApiFailed
  | LogReturningStored nat
  | LogNoStoredReturningMock
  | LogGotReal nat
  | ErrorProxy
  | LogErrorReturningStored nat
  | LogInitNoTweets
  | LogInitialized
  | LogAlreadyContains nat

text \<open>
  The process-wide state: the file system, the console, the mutable global
  \<open>twitterBearerToken\<close> and the environment variable it is initialised from.
\<close>

record world =
  files :: "string \<Rightarrow> db_file option"
  console :: "log_entry list"
  twitterBearerToken :: "string option"
  env_TWITTER_BEARER_TOKEN :: "string option"

definition say :: "log_entry \<Rightarrow> world \<Rightarrow> world" where
  "say e w = w\<lparr>console := console w @ [e]\<rparr>"

text \<open>The path of the backing file, relative to the directory of the server.\<close>

definition TWEETS_DB_FILE :: string where
  "TWEETS_DB_FILE = ''tweets_database.json''"

definition MAX_STORED_TWEETS :: nat where
  "MAX_STORED_TWEETS = 100"

section \<open>The tweet store\<close>

text \<open>
  \<open>loadStoredTweets\<close>: read and parse the backing file.  Every failure is caught; only a
  failure other than \<open>ENOENT\<close> is printed.  \<open>parsed.tweets || []\<close> turns a missing
  \<open>tweets\<close> field into the empty list.
\<close>

definition loadStoredTweets :: "world \<Rightarrow> tweet list \<times> world" where
  "loadStoredTweets w =
     (case files w TWEETS_DB_FILE of
        None \<Rightarrow> ([], w)
      | Some Unreadable \<Rightarrow> ([], say ErrorLoading w)
      | Some Malformed \<Rightarrow> ([], say ErrorLoading w)
      | Some (Parsed d) \<Rightarrow>
          (case tweets d of
             None \<Rightarrow> ([], say (LogLoaded 0) w)
           | Some ts \<Rightarrow> (ts, say (LogLoaded (length ts)) w)))"

text \<open>
  The filter at the head of \<open>saveStoredTweets\<close>:
  \<open>!t.isMockData && !t.id.startsWith('mock_') && !t.id.startsWith('client_mock_')\<close>.
\<close>

definition startsWith :: "string \<Rightarrow> string \<Rightarrow> bool" where
  "startsWith s p = (take (length p) s = p)"

definition realTweet :: "tweet \<Rightarrow> bool" where
  "realTweet t =
     (\<not> isMockData t \<and> \<not> startsWith (tweet_id t) ''mock_'' \<and>
      \<not> startsWith (tweet_id t) ''client_mock_'')"

text \<open>
  \<open>tweetMap\<close> is a JavaScript \<open>Map\<close>: it iterates in insertion order, and \<open>set\<close> on a key
  already present replaces the value where it stands.  That is an association list under
  \<open>AList.update\<close>.
\<close>

type_synonym tweetMap = "(string \<times> tweet) list"

definition tweetMap_set :: "tweet \<Rightarrow> tweetMap \<Rightarrow> tweetMap" where
  "tweetMap_set t m = AList.update (tweet_id t) t m"

definition tweetMap_values :: "tweetMap \<Rightarrow> tweet list" where
  "tweetMap_values m = map snd m"

text \<open>
  \<open>.sort((a, b) => new Date(b.created_at) - new Date(a.created_at))\<close>: the comparator is
  a consistent order by decreasing instant and \<open>Array.prototype.sort\<close> is stable, which is
  the stable insertion sort on the negated instant.
\<close>

definition sort_newest_first :: "tweet list \<Rightarrow> tweet list" where
  "sort_newest_first ts = sort_key (\<lambda>t. - created_at t) ts"

text \<open>
  The map \<open>tweetMap\<close> that \<open>saveStoredTweets\<close> fills, first from the loaded posts and then
  from the filtered new ones, and the value \<open>allTweets\<close> it computes from the map.
\<close>

definition tweetMap_of :: "tweet list \<Rightarrow> tweet list \<Rightarrow> tweetMap" where
  "tweetMap_of existingTweets tws =
     (let realTweets = filter realTweet tws
      in fold tweetMap_set realTweets (fold tweetMap_set existingTweets []))"

definition allTweets :: "tweet list \<Rightarrow> tweet list \<Rightarrow> tweet list" where
  "allTweets existingTweets tws =
     take MAX_STORED_TWEETS
       (sort_newest_first (tweetMap_values (tweetMap_of existingTweets tws)))"

text \<open>
  \<open>fs.writeFile(path, text)\<close> opens \<open>path\<close> itself for writing, which empties it, and
  then writes the text into it.  It either completes, or rejects before the file is opened
  (the path keeps what it held), or stops after the file was opened: the path then
  holds a proper prefix of the JSON text, which \<open>JSON.parse\<close> refuses.
\<close>

datatype write_outcome = WriteOk | WriteFails | WriteTorn

definition fs_writeFile :: "string \<Rightarrow> db \<Rightarrow> write_outcome \<Rightarrow> world \<Rightarrow> bool \<times> world" where
  "fs_writeFile p d out w =
     (case out of
        WriteOk \<Rightarrow> (True, w\<lparr>files := (files w)(p \<mapsto> Parsed d)\<rparr>)
      | WriteFails \<Rightarrow> (False, w)
      | WriteTorn \<Rightarrow> (False, w\<lparr>files := (files w)(p \<mapsto> Malformed)\<rparr>))"

text \<open>
  \<open>saveStoredTweets\<close>, the merge routine.  The whole body stands in one \<open>try\<close>; its
  \<open>catch\<close> prints the error and returns the empty array.  \<open>out\<close> is what the write does
  and \<open>now\<close> the clock for \<open>lastUpdated\<close>.
\<close>

definition saveStoredTweets ::
  "tweet list \<Rightarrow> write_outcome \<Rightarrow> int \<Rightarrow> world \<Rightarrow> tweet list \<times> world" where
  "saveStoredTweets tws out now w =
     (let (existingTweets, w1) = loadStoredTweets w;
          merged = allTweets existingTweets tws;
          (written, w2) =
            fs_writeFile TWEETS_DB_FILE \<lparr>tweets = Some merged, lastUpdated = now\<rparr> out w1
      in if written then (merged, say (LogSaved (length merged)) w2)
         else ([], say ErrorSaving w2))"

text \<open>
  A post is the latest for its id in a list when it is the last post of the list that carries
  its id.  The map of a merge is filled in the order of the loaded posts followed by the
  accepted new ones, and a later \<open>set\<close> replaces an earlier one: the posts that are the
  latest for their id in that list are the candidates for the store.
\<close>

definition latest_by_id :: "tweet list \<Rightarrow> tweet \<Rightarrow> bool" where
  "latest_by_id ts x =
     (x \<in> set ts \<and> last (filter (\<lambda>z. tweet_id z = tweet_id x) ts) = x)"

text \<open>The posts the store holds: what \<open>loadStoredTweets\<close> returns.\<close>

definition stored :: "world \<Rightarrow> tweet list" where
  "stored w = fst (loadStoredTweets w)"

text \<open>A sequence of merge calls, each with its batch, the outcome of its write and its clock.\<close>

fun merges :: "(tweet list \<times> write_outcome \<times> int) list \<Rightarrow> world \<Rightarrow> world" where
  "merges [] w = w"
| "merges ((tws, out, now) # calls) w = merges calls (snd (saveStoredTweets tws out now w))"

section \<open>The sampler\<close>

text \<open>\<open>xs.slice(0, e)\<close> for an integer \<open>e\<close>: a negative end counts from the end of the array.\<close>

definition slice0 :: "'a list \<Rightarrow> int \<Rightarrow> 'a list" where
  "slice0 xs e =
     (let n = int (length xs);
          k = (if e < 0 then max (n + e) 0 else min e n)
      in take (nat k) xs)"

text \<open>
  \<open>getRandomStoredTweets\<close>.  \<open>shuffle\<close> is the arrangement that
  \<open>[...storedTweets].sort(() => Math.random() - 0.5)\<close> produces in this call: sorting
  rearranges the copy, so \<open>shuffle xs\<close> is a permutation of \<open>xs\<close>, chosen by the random source.
  \<open>cnt\<close> is the parameter \<open>count\<close>.
\<close>

definition getRandomStoredTweets ::
  "(tweet list \<Rightarrow> tweet list) \<Rightarrow> int \<Rightarrow> world \<Rightarrow> tweet list \<times> world" where
  "getRandomStoredTweets shuffle cnt w =
     (let (storedTweets, w1) = loadStoredTweets w
      in if length storedTweets = 0 then ([], w1)
         else (slice0 (shuffle storedTweets) (min cnt (int (length storedTweets))), w1))"

section \<open>The credential\<close>

text \<open>JavaScript truthiness of a string that may be undefined: the empty string is falsy.\<close>

definition truthy :: "string option \<Rightarrow> bool" where
  "truthy t = (case t of None \<Rightarrow> False | Some s \<Rightarrow> s \<noteq> [])"

text \<open>
  What the token endpoint does when asked: the request or the parsing of its answer throws,
  or the answer is an object whose \<open>access_token\<close> may be missing.
\<close>

datatype oauth_outcome = OauthThrows | OauthJson "string option"

definition getTwitterBearerToken :: "oauth_outcome \<Rightarrow> world \<Rightarrow> string option \<times> world" where
  "getTwitterBearerToken oauth w =
     (if truthy (twitterBearerToken w) then (twitterBearerToken w, say LogUsingProvidedToken w)
      else
        (case oauth of
           OauthJson access_token \<Rightarrow>
             if truthy access_token
             then (access_token, say LogTokenObtained (w\<lparr>twitterBearerToken := access_token\<rparr>))
             else (env_TWITTER_BEARER_TOKEN w, say ErrorTokenFailed w)
         | OauthThrows \<Rightarrow> (env_TWITTER_BEARER_TOKEN w, say ErrorTokenException w)))"

section \<open>Placeholder and sample posts\<close>

text \<open>
  \<open>getMockTweets\<close>; \<open>now\<close> is the clock.  The code reads the clock once for each of the three
  posts; the three readings of one call are taken to be the same instant.  The first text ends
  in the four characters the source file holds after \<open>levels\<close>, given by their UTF-8 bytes.
\<close>

definition getMockTweets :: "int \<Rightarrow> tweet list" where
  "getMockTweets now =
     [\<lparr>tweet_id = ''mock_1'', isMockData = True,
       tweet_text = ''Bitcoin is showing strong momentum today! $BTC breaking through resistance levels ''
         @ map char_of [195, 176, 197, 184, 197, 161, 226, 130, 172 :: nat],
       created_at = now, author_id = ''mock_user_1'',
       metrics = \<lparr>retweet_count = 45, reply_count = 12, like_count = 234, quote_count = 5\<rparr>,
       author = None\<rparr>,
      \<lparr>tweet_id = ''mock_2'', isMockData = True,
       tweet_text = ''Institutional adoption of #Bitcoin continues to grow. Major banks now offering BTC custody services.'',
       created_at = now - 3600000, author_id = ''mock_user_2'',
       metrics = \<lparr>retweet_count = 89, reply_count = 23, like_count = 456, quote_count = 12\<rparr>,
       author = None\<rparr>,
      \<lparr>tweet_id = ''mock_3'', isMockData = True,
       tweet_text = ''BTC price analysis: Key support at $107k holding strong. Next target $110k if we break above current resistance.'',
       created_at = now - 7200000, author_id = ''mock_user_3'',
       metrics = \<lparr>retweet_count = 67, reply_count = 34, like_count = 789, quote_count = 8\<rparr>,
       author = None\<rparr>]"

text \<open>Decimal rendering of \<open>Date.now()\<close> inside the ids of the sample posts.\<close>

fun decimal :: "nat \<Rightarrow> string" where
  "decimal n = (if n < 10 then [char_of (48 + n)] else decimal (n div 10) @ [char_of (48 + n mod 10)])"

definition number_text :: "int \<Rightarrow> string" where
  "number_text i = (if i < 0 then CHR ''-'' # decimal (nat (- i)) else decimal (nat i))"

definition sampleTweets :: "int \<Rightarrow> tweet list" where
  "sampleTweets now =
     [\<lparr>tweet_id = ''init_'' @ number_text now @ ''_1'', isMockData = False,
       tweet_text = ''Breaking: Bitcoin ETF sees record $500M inflow today as institutional interest surges. $BTC holding strong above $107k support level. The momentum continues to build.'',
       created_at = now, author_id = ''sample_user_1'',
       metrics = \<lparr>retweet_count = 156, reply_count = 42, like_count = 892, quote_count = 23\<rparr>,
       author = Some \<lparr>user_id = None, username = ''cryptoanalyst'',
                      display_name = ''Crypto Analyst'', profile_image_url = None\<rparr>\<rparr>,
      \<lparr>tweet_id = ''init_'' @ number_text now @ ''_2'', isMockData = False,
       tweet_text = ''MicroStrategy announces additional $250M Bitcoin purchase. Now holding over 189,000 BTC. Michael Saylor remains bullish on the digital gold thesis.'',
       created_at = now - 3600000, author_id = ''sample_user_2'',
       metrics = \<lparr>retweet_count = 234, reply_count = 67, like_count = 1453, quote_count = 45\<rparr>,
       author = Some \<lparr>user_id = None, username = ''btcnewswire'',
                      display_name = ''BTC News Wire'', profile_image_url = None\<rparr>\<rparr>,
      \<lparr>tweet_id = ''init_'' @ number_text now @ ''_3'', isMockData = False,
       tweet_text = ''Lightning Network capacity hits new ATH with 6,000+ BTC locked. Payment channels growing 15% month-over-month. #Bitcoin adoption accelerating.'',
       created_at = now - 7200000, author_id = ''sample_user_3'',
       metrics = \<lparr>retweet_count = 89, reply_count = 23, like_count = 567, quote_count = 12\<rparr>,
       author = Some \<lparr>user_id = None, username = ''lightningdev'',
                      display_name = ''Lightning Network Stats'', profile_image_url = None\<rparr>\<rparr>,
      \<lparr>tweet_id = ''init_'' @ number_text now @ ''_4'', isMockData = False,
       tweet_text = ''Bitcoin mining difficulty adjusts +3.2% as hash rate reaches new all-time high. Network security stronger than ever. $BTC fundamentals remain robust.'',
       created_at = now - 10800000, author_id = ''sample_user_4'',
       metrics = \<lparr>retweet_count = 78, reply_count = 19, like_count = 445, quote_count = 8\<rparr>,
       author = Some \<lparr>user_id = None, username = ''miningpoolstats'',
                      display_name = ''Mining Pool Statistics'', profile_image_url = None\<rparr>\<rparr>,
      \<lparr>tweet_id = ''init_'' @ number_text now @ ''_5'', isMockData = False,
       tweet_text = ''El Salvador reports $400M profit on Bitcoin holdings. President Bukele says the country will continue its BTC accumulation strategy.'',
       created_at = now - 14400000, author_id = ''sample_user_5'',
       metrics = \<lparr>retweet_count = 345, reply_count = 89, like_count = 2134, quote_count = 67\<rparr>,
       author = Some \<lparr>user_id = None, username = ''globalbtc'',
                      display_name = ''Global Bitcoin News'', profile_image_url = None\<rparr>\<rparr>]"

text \<open>\<open>initializeSampleTweets\<close>, run once when the server starts listening.\<close>

definition initializeSampleTweets :: "write_outcome \<Rightarrow> int \<Rightarrow> world \<Rightarrow> world" where
  "initializeSampleTweets out now w =
     (let (existingTweets, w1) = loadStoredTweets w
      in if length existingTweets = 0
         then say LogInitialized
                (snd (saveStoredTweets (sampleTweets now) out now (say LogInitNoTweets w1)))
         else say (LogAlreadyContains (length existingTweets)) w1)"

section \<open>The handler of \<open>/api/twitter/search\<close>\<close>

text \<open>
  The JSON object a response carries, and the one the upstream search answers with: the
  \<open>data\<close> and \<open>includes\<close> fields the handler reads, the \<open>isStoredData\<close> marker it sets
  (absent reads as false), and whatever else the object holds, kept as opaque text.
  The field \<open>includes\<close> is written \<open>includes_f\<close>.
\<close>

datatype includes_obj = Includes (users: "user list option")

record payload =
  data :: "tweet list option"
  includes_f :: "includes_obj option"
  isStoredData :: bool
  rest :: string

datatype response = Json payload | Status500 string

text \<open>
  What the live search does in one request: \<open>fetch\<close> rejects; or the response is not
  \<open>ok\<close>, with its status and its body text (\<open>None\<close> when reading the text rejects); or it
  is \<open>ok\<close>, with its body (\<open>None\<close> when \<open>response.json()\<close> rejects or yields \<open>null\<close>).
\<close>

datatype upstream = FetchRejects | RespNotOk int "string option" | RespOk "payload option"

text \<open>Everything outside the process that one request depends on.\<close>

record request_env =
  oauth :: oauth_outcome
  upstream :: upstream
  write_result :: write_outcome
  shuffle :: "tweet list \<Rightarrow> tweet list"
  now :: int

definition defaultAuthor :: user where
  "defaultAuthor =
     \<lparr>user_id = None, username = ''btc_trader'', display_name = ''Bitcoin Trader'',
      profile_image_url = None\<rparr>"

text \<open>
  \<open>userMap\<close>: filled in array order, so a later user with the same id replaces an earlier
  one.  The code keeps it in a plain object; author ids are the numeric strings of the upstream
  service, so a lookup never meets a property that a plain object inherits.
\<close>

definition userMap_of :: "user list \<Rightarrow> (string option \<Rightarrow> user option)" where
  "userMap_of us = fold (\<lambda>u m. m(user_id u \<mapsto> u)) us Map.empty"

definition processTweets :: "payload \<Rightarrow> tweet list \<Rightarrow> tweet list" where
  "processTweets p ts =
     (case includes_f p of
        Some (Includes (Some us)) \<Rightarrow>
          map (\<lambda>t. t\<lparr>author := Some (case userMap_of us (Some (author_id t)) of
                                        Some u \<Rightarrow> u | None \<Rightarrow> defaultAuthor)\<rparr>) ts
      | _ \<Rightarrow>
          map (\<lambda>t. t\<lparr>author := Some (case author t of
                                        Some a \<Rightarrow> a | None \<Rightarrow> defaultAuthor)\<rparr>) ts)"

definition stored_payload :: "tweet list \<Rightarrow> payload" where
  "stored_payload ts =
     \<lparr>data = Some ts, includes_f = Some (Includes (Some [])), isStoredData = True, rest = []\<rparr>"

definition mock_payload :: "int \<Rightarrow> payload" where
  "mock_payload t =
     \<lparr>data = Some (getMockTweets t), includes_f = Some (Includes (Some [])),
      isStoredData = False, rest = []\<rparr>"

text \<open>The \<open>catch\<close> block of the handler.\<close>

definition on_error :: "request_env \<Rightarrow> world \<Rightarrow> response \<times> world" where
  "on_error e w =
     (let (storedTweets, w1) = getRandomStoredTweets (shuffle e) 10 (say ErrorProxy w)
      in if length storedTweets > 0
         then (Json (stored_payload storedTweets),
               say (LogErrorReturningStored (length storedTweets)) w1)
         else (Json (mock_payload (now e)), w1))"

text \<open>The handler: the response it sends and the state it leaves.\<close>

definition twitter_search :: "request_env \<Rightarrow> world \<Rightarrow> response \<times> world" where
  "twitter_search e w =
     (let (token, w1) = getTwitterBearerToken (oauth e) w
      in if \<not> truthy token then
           (let (storedTweets, w2) = getRandomStoredTweets (shuffle e) 10 (say LogNoToken w1)
            in if length storedTweets > 0 then (Json (stored_payload storedTweets), w2)
               else (Status500 ''Failed to authenticate with Twitter'', w2))
         else
           (let w2 = say LogFetching w1
            in case upstream e of
                 FetchRejects \<Rightarrow> on_error e w2
               | RespNotOk status None \<Rightarrow> on_error e w2
               | RespNotOk status (Some errorText) \<Rightarrow>
                   (let (storedTweets, w3) =
                          getRandomStoredTweets (shuffle e) 10
                            (say LogApiFailed (say (ErrorTwitterApi status) w2))
                    in if length storedTweets > 0
                       then (Json (stored_payload storedTweets),
                             say (LogReturningStored (length storedTweets)) w3)
                       else (Json (mock_payload (now e)), say LogNoStoredReturningMock w3))
               | RespOk None \<Rightarrow> on_error e w2
               | RespOk (Some p) \<Rightarrow>
                   (case data p of
                      Some (t # ts) \<Rightarrow>
                        (let processedTweets = processTweets p (t # ts);
                             w3 = snd (saveStoredTweets processedTweets (write_result e) (now e)
                                         (say (LogGotReal (length (t # ts))) w2))
                         in (Json \<lparr>data = Some processedTweets,
                                    includes_f = (case includes_f p of
                                                  Some i \<Rightarrow> Some i
                                                | None \<Rightarrow> Some (Includes (Some []))),
                                    isStoredData = False, rest = []\<rparr>, w3))
                    | _ \<Rightarrow> (Json p, w2))))"

text \<open>
  The live search has failed when \<open>fetch\<close> rejects, when the response is not \<open>ok\<close>, or when
  the body of an \<open>ok\<close> response cannot be read as an object.
\<close>

definition live_failed :: "upstream \<Rightarrow> bool" where
  "live_failed u = (case u of RespOk (Some p) \<Rightarrow> False | _ \<Rightarrow> True)"

section \<open>Concrete inputs\<close>

text \<open>Small inputs on which the properties below are also evaluated.\<close>

definition post :: "string \<Rightarrow> int \<Rightarrow> tweet" where
  "post i at =
     \<lparr>tweet_id = i, isMockData = False, tweet_text = ''BTC'', created_at = at,
      author_id = ''u1'',
      metrics = \<lparr>retweet_count = 0, reply_count = 0, like_count = 0, quote_count = 0\<rparr>,
      author = None\<rparr>"

definition fresh_world :: world where
  "fresh_world =
     \<lparr>files = (\<lambda>p. None), console = [], twitterBearerToken = None,
      env_TWITTER_BEARER_TOKEN = None\<rparr>"

definition world_with :: "db_file \<Rightarrow> world" where
  "world_with f = fresh_world\<lparr>files := (\<lambda>p. None)(TWEETS_DB_FILE \<mapsto> f)\<rparr>"

definition world_storing :: "tweet list \<Rightarrow> world" where
  "world_storing ts = world_with (Parsed \<lparr>tweets = Some ts, lastUpdated = 0\<rparr>)"

definition request_with :: "oauth_outcome \<Rightarrow> upstream \<Rightarrow> request_env" where
  "request_with oa up =
     \<lparr>oauth = oa, upstream = up, write_result = WriteOk, shuffle = rev, now = 0\<rparr>"

section \<open>Auxiliary facts about the store\<close>

lemma stored_say [simp]: "stored (say e w) = stored w"
  by (simp add: stored_def loadStoredTweets_def say_def split: option.splits db_file.splits)

lemma files_say [simp]: "files (say e w) = files w"
  by (simp add: say_def)

lemma files_load [simp]: "files (snd (loadStoredTweets w)) = files w"
  by (simp add: loadStoredTweets_def split: option.splits db_file.splits)

lemma stored_files:
  "stored w =
     (case files w TWEETS_DB_FILE of
        Some (Parsed d) \<Rightarrow> (case tweets d of Some ts \<Rightarrow> ts | None \<Rightarrow> [])
      | _ \<Rightarrow> [])"
  by (simp add: stored_def loadStoredTweets_def split: option.splits db_file.splits)

lemma save_unfold:
  "saveStoredTweets tws out t w =
     (case out of
        WriteOk \<Rightarrow> (allTweets (stored w) tws,
                    say (LogSaved (length (allTweets (stored w) tws)))
                      ((snd (loadStoredTweets w))\<lparr>files := (files w)(TWEETS_DB_FILE \<mapsto>
                          Parsed \<lparr>tweets = Some (allTweets (stored w) tws), lastUpdated = t\<rparr>)\<rparr>))
      | WriteFails \<Rightarrow> ([], say ErrorSaving (snd (loadStoredTweets w)))
      | WriteTorn \<Rightarrow> ([], say ErrorSaving
                      ((snd (loadStoredTweets w))\<lparr>files := (files w)(TWEETS_DB_FILE \<mapsto> Malformed)\<rparr>)))"
proof -
  obtain ex w1 where l: "loadStoredTweets w = (ex, w1)"
    by (cases "loadStoredTweets w")
  then have "files w1 = files w"
    using files_load [of w] by simp
  with l show ?thesis
    by (cases out) (simp_all add: saveStoredTweets_def stored_def fs_writeFile_def Let_def)
qed

lemma save_ok_fst: "fst (saveStoredTweets tws WriteOk t w) = allTweets (stored w) tws"
  by (simp add: save_unfold)

lemma save_ok_stored: "stored (snd (saveStoredTweets tws WriteOk t w)) = allTweets (stored w) tws"
  by (simp add: save_unfold stored_files)

lemma save_fails_stored: "stored (snd (saveStoredTweets tws WriteFails t w)) = stored w"
  by (simp add: save_unfold stored_files)

lemma save_torn_stored: "stored (snd (saveStoredTweets tws WriteTorn t w)) = []"
  by (simp add: save_unfold stored_files)

lemma length_allTweets: "length (allTweets ex tws) \<le> 100"
  by (simp add: allTweets_def MAX_STORED_TWEETS_def)

lemma sorted_allTweets: "sorted (map (\<lambda>t. - created_at t) (allTweets ex tws))"
proof -
  let ?f = "\<lambda>t. - created_at t"
  have "sorted (take n (map ?f (sort_key ?f xs)))" for n and xs :: "tweet list"
    by (rule sorted_wrt_take) simp
  then show ?thesis
    by (simp add: allTweets_def sort_newest_first_def take_map)
qed

lemma length_stored_after_save:
  "length (stored (snd (saveStoredTweets tws out t w))) \<le> max 100 (length (stored w))"
  using length_allTweets [of "stored w" tws]
  by (cases out) (simp_all add: save_ok_stored save_fails_stored save_torn_stored)

lemma merges_keep_cap:
  "length (stored w) \<le> 100 \<Longrightarrow> length (stored (merges calls w)) \<le> 100"
proof (induction calls arbitrary: w)
  case Nil
  then show ?case by simp
next
  case (Cons c calls)
  obtain tws out t where c: "c = (tws, out, t)"
    by (cases c)
  have "length (stored (snd (saveStoredTweets tws out t w))) \<le> 100"
    using length_stored_after_save [of tws out t w] Cons.prems by simp
  then show ?case
    using Cons.IH c by simp
qed

lemma merges_all_fail:
  "\<forall>c\<in>set calls. fst (snd c) = WriteFails \<Longrightarrow> stored (merges calls w) = stored w"
proof (induction calls arbitrary: w)
  case Nil
  then show ?case by simp
next
  case (Cons c calls)
  obtain tws out t where c: "c = (tws, out, t)"
    by (cases c)
  with Cons.prems have "out = WriteFails"
    by simp
  with Cons c show ?case
    by (simp add: save_fails_stored)
qed

lemma merges_some_write:
  "\<exists>c\<in>set calls. fst (snd c) \<noteq> WriteFails \<Longrightarrow> length (stored (merges calls w)) \<le> 100"
proof (induction calls arbitrary: w)
  case Nil
  then show ?case by simp
next
  case (Cons c calls)
  obtain tws out t where c: "c = (tws, out, t)"
    by (cases c)
  show ?case
  proof (cases "out = WriteFails")
    case True
    with Cons.prems c have "\<exists>c\<in>set calls. fst (snd c) \<noteq> WriteFails"
      by simp
    then show ?thesis
      using Cons.IH c by simp
  next
    case False
    then have "length (stored (snd (saveStoredTweets tws out t w))) \<le> 100"
      using length_allTweets [of "stored w" tws]
      by (cases out) (simp_all add: save_ok_stored save_torn_stored)
    then show ?thesis
      using merges_keep_cap c by simp
  qed
qed

lemma stored_world_storing: "stored (world_storing ts) = ts"
  by (simp add: stored_files world_storing_def world_with_def fresh_world_def)

lemma dropped_older:
  assumes "x \<in> set (tweetMap_values (tweetMap_of ex tws))" "x \<notin> set (allTweets ex tws)"
    and "y \<in> set (allTweets ex tws)"
  shows "created_at x \<le> created_at y"
proof -
  let ?f = "\<lambda>t. - created_at t"
  let ?s = "sort_key ?f (tweetMap_values (tweetMap_of ex tws))"
  have "sorted (map ?f (take 100 ?s @ drop 100 ?s))"
    by simp
  then have *: "\<forall>a\<in>set (take 100 ?s). \<forall>b\<in>set (drop 100 ?s). ?f a \<le> ?f b"
    unfolding map_append sorted_append by simp
  have "set ?s = set (take 100 ?s) \<union> set (drop 100 ?s)"
    by (metis append_take_drop_id set_append)
  with assms(1,2) have "x \<in> set (drop 100 ?s)"
    by (auto simp: allTweets_def sort_newest_first_def MAX_STORED_TWEETS_def)
  moreover from assms(3) have "y \<in> set (take 100 ?s)"
    by (simp add: allTweets_def sort_newest_first_def MAX_STORED_TWEETS_def)
  ultimately show ?thesis
    using * by fastforce
qed

section \<open>Auxiliary facts about the map of a merge\<close>

text \<open>
  Filling the map keeps every key equal to the id of its value and keeps the keys distinct;
  it extends the list of keys at the end; and what it holds under a key is the last post
  with that id, or what the map held before.
\<close>

lemma update_fresh: "k \<notin> fst ` set m \<Longrightarrow> AList.update k v m = m @ [(k, v)]"
  by (induction m) auto

lemma set_update_subset: "set (AList.update k v m) \<subseteq> insert (k, v) (set m)"
  by (induction m) auto

lemma values_fold_set:
  "snd ` set (fold tweetMap_set ts m) \<subseteq> snd ` set m \<union> set ts"
proof (induction ts arbitrary: m)
  case Nil
  then show ?case by simp
next
  case (Cons t ts)
  have "snd ` set (tweetMap_set t m) \<subseteq> insert t (snd ` set m)"
    using set_update_subset [of "tweet_id t" t m] by (force simp: tweetMap_set_def)
  with Cons.IH [of "tweetMap_set t m"] show ?case
    by auto
qed

lemma keyed_fold_set:
  "\<forall>(k, v)\<in>set m. tweet_id v = k \<Longrightarrow> \<forall>(k, v)\<in>set (fold tweetMap_set ts m). tweet_id v = k"
proof (induction ts arbitrary: m)
  case Nil
  then show ?case by simp
next
  case (Cons t ts)
  have "\<forall>(k, v)\<in>set (tweetMap_set t m). tweet_id v = k"
    using set_update_subset [of "tweet_id t" t m] Cons.prems by (auto simp: tweetMap_set_def)
  then show ?case
    using Cons.IH [of "tweetMap_set t m"] by simp
qed

lemma distinct_fold_set:
  "distinct (map fst m) \<Longrightarrow> distinct (map fst (fold tweetMap_set ts m))"
  by (induction ts arbitrary: m) (simp_all add: tweetMap_set_def distinct_update)

lemma keys_fold_set:
  "\<exists>ns. map fst (fold tweetMap_set ts m) = map fst m @ ns"
proof (induction ts arbitrary: m)
  case Nil
  then show ?case by simp
next
  case (Cons t ts)
  obtain ns where "map fst (fold tweetMap_set ts (tweetMap_set t m)) = map fst (tweetMap_set t m) @ ns"
    using Cons.IH by blast
  moreover have "map fst (tweetMap_set t m) =
      (if tweet_id t \<in> set (map fst m) then map fst m else map fst m @ [tweet_id t])"
    by (simp add: tweetMap_set_def update_keys)
  ultimately have "map fst (fold tweetMap_set (t # ts) m) = map fst m @ ns \<or>
      map fst (fold tweetMap_set (t # ts) m) = map fst m @ ([tweet_id t] @ ns)"
    by (cases "tweet_id t \<in> set (map fst m)") simp_all
  then show ?case
    by blast
qed

lemma map_of_fold_set:
  "map_of (fold tweetMap_set ts m) = map_of m ++ map_of (fold tweetMap_set ts [])"
proof (induction ts arbitrary: m)
  case Nil
  then show ?case by simp
next
  case (Cons t ts)
  have "map_of (fold tweetMap_set (t # ts) m) = map_of (tweetMap_set t m) ++ map_of (fold tweetMap_set ts [])"
    using Cons.IH [of "tweetMap_set t m"] by simp
  also have "\<dots> = map_of m ++ (map_of (tweetMap_set t []) ++ map_of (fold tweetMap_set ts []))"
    by (simp add: tweetMap_set_def update_conv' fun_eq_iff map_add_def split: option.splits)
  also have "map_of (tweetMap_set t []) ++ map_of (fold tweetMap_set ts []) = map_of (fold tweetMap_set (t # ts) [])"
    using Cons.IH [of "tweetMap_set t []"] by simp
  finally show ?case .
qed

lemma alist_rebuild:
  "distinct (map fst m) \<Longrightarrow> map (\<lambda>k. the (map_of m k)) (map fst m) = map snd m"
proof (induction m)
  case Nil
  then show ?case by simp
next
  case (Cons p m)
  have "map (\<lambda>k. the (map_of (p # m) k)) (map fst m) = map (\<lambda>k. the (map_of m k)) (map fst m)"
    using Cons.prems by (intro map_cong) (auto simp: image_iff)
  with Cons show ?case
    by simp
qed

lemma fold_set_fresh:
  "distinct (map tweet_id xs) \<Longrightarrow> tweet_id ` set xs \<inter> fst ` set m = {} \<Longrightarrow>
   fold tweetMap_set xs m = m @ map (\<lambda>t. (tweet_id t, t)) xs"
proof (induction xs arbitrary: m)
  case Nil
  then show ?case by simp
next
  case (Cons x xs)
  have m: "tweetMap_set x m = m @ [(tweet_id x, x)]"
    using Cons.prems(2) by (simp add: tweetMap_set_def update_fresh)
  have "tweet_id ` set xs \<inter> fst ` set (m @ [(tweet_id x, x)]) = {}"
    using Cons.prems by auto
  with Cons.IH [of "m @ [(tweet_id x, x)]"] Cons.prems(1) m show ?case
    by simp
qed

lemma sort_key_append_sorted:
  "sorted (map f xs) \<Longrightarrow> \<forall>x\<in>set xs. \<forall>y\<in>set ys. f x \<le> f y \<Longrightarrow>
   sort_key f (xs @ ys) = xs @ sort_key f ys"
proof (induction xs)
  case Nil
  then show ?case by simp
next
  case (Cons x xs)
  then have "sort_key f (xs @ ys) = xs @ sort_key f ys"
    by simp
  moreover have "\<forall>z\<in>set (xs @ sort_key f ys). f x \<le> f z"
    using Cons.prems by auto
  ultimately show ?case
    by (simp add: insort_is_Cons)
qed

lemma keyed_values:
  "\<forall>(k, v)\<in>set m. tweet_id v = k \<Longrightarrow> map tweet_id (map snd m) = map fst m"
  by (induction m) auto

lemma allTweets_idem: "allTweets (allTweets ex tws) tws = allTweets ex tws"
proof -
  let ?f = "\<lambda>t. - created_at t"
  let ?embed = "map (\<lambda>t. (tweet_id t, t))"
  define B where "B = filter realTweet tws"
  define M0 where "M0 = fold tweetMap_set ex []"
  define M1 where "M1 = fold tweetMap_set B M0"
  define L where "L = sort_key ?f (map snd M1)"
  define S1 where "S1 = take 100 L"
  define M2 where "M2 = fold tweetMap_set B (fold tweetMap_set S1 [])"
  define b where "b = map_of (fold tweetMap_set B [])"
  have a1: "allTweets ex tws = S1"
    by (simp add: allTweets_def tweetMap_of_def tweetMap_values_def sort_newest_first_def
        MAX_STORED_TWEETS_def S1_def L_def M1_def M0_def B_def)
  have a2: "allTweets S1 tws = take 100 (sort_key ?f (map snd M2))"
    by (simp add: allTweets_def tweetMap_of_def tweetMap_values_def sort_newest_first_def
        MAX_STORED_TWEETS_def M2_def B_def)
  have keyed1: "\<forall>(k, v)\<in>set M1. tweet_id v = k"
    unfolding M1_def M0_def by (intro keyed_fold_set) simp
  have dist1: "distinct (map fst M1)"
    unfolding M1_def M0_def by (intro distinct_fold_set) simp
  have kv: "map tweet_id (map snd M1) = map fst M1"
    using keyed1 by (rule keyed_values)
  have "distinct (map tweet_id (map snd M1))"
    by (simp only: kv dist1)
  moreover have "mset L = mset (map snd M1)"
    by (simp add: L_def)
  then have "mset (map tweet_id L) = mset (map tweet_id (map snd M1))"
    by (simp only: mset_map)
  ultimately have "distinct (map tweet_id L)"
    using mset_eq_imp_distinct_iff by blast
  then have "distinct (take 100 (map tweet_id L))"
    by (rule distinct_take)
  then have distS: "distinct (map tweet_id S1)"
    by (simp add: S1_def take_map)
  have e1: "fold tweetMap_set S1 [] = ?embed S1"
    using fold_set_fresh [OF distS, of "[]"] by simp
  obtain ns where keys2: "map fst M2 = map tweet_id S1 @ ns"
    using keys_fold_set [of B "?embed S1"] by (auto simp: M2_def e1 comp_def)
  have dist2: "distinct (map fst M2)"
    unfolding M2_def by (intro distinct_fold_set) simp
  have mo1: "map_of M1 = map_of M0 ++ b"
    unfolding M1_def b_def by (rule map_of_fold_set)
  have mo2: "map_of M2 = map_of (?embed S1) ++ b"
    unfolding M2_def b_def e1 by (rule map_of_fold_set)
  have setL: "set L = set (map snd M1)"
    by (simp add: L_def)
  have inM1: "map_of M1 (tweet_id s) = Some s" if "s \<in> set L" for s
  proof -
    from that setL obtain k where "(k, s) \<in> set M1"
      by auto
    moreover from this keyed1 have "k = tweet_id s"
      by auto
    ultimately show ?thesis
      using dist1 by simp
  qed
  have part1: "map (\<lambda>k. the (map_of M2 k)) (map tweet_id S1) = S1"
  proof -
    have "the (map_of M2 (tweet_id s)) = s" if "s \<in> set S1" for s
    proof -
      from that have "s \<in> set L"
        unfolding S1_def by (rule in_set_takeD)
      then have m1: "map_of M1 (tweet_id s) = Some s"
        by (rule inM1)
      have "(tweet_id s, s) \<in> set (?embed S1)"
        using that by auto
      moreover have "distinct (map fst (?embed S1))"
        using distS by (simp add: comp_def)
      ultimately have m: "map_of (?embed S1) (tweet_id s) = Some s"
        by (rule map_of_is_SomeI [rotated])
      show ?thesis
      proof (cases "b (tweet_id s)")
        case None
        with m show ?thesis
          by (simp add: mo2 map_add_def)
      next
        case (Some t)
        with m1 have "t = s"
          by (simp add: mo1 map_add_def)
        with Some show ?thesis
          by (simp add: mo2 map_add_def)
      qed
    qed
    then show ?thesis
      by (simp add: comp_def map_idI)
  qed
  define R where "R = map (\<lambda>k. the (map_of M2 k)) ns"
  have v2: "map snd M2 = S1 @ R"
    using alist_rebuild [OF dist2] part1 by (simp add: keys2 R_def)
  have splitL: "L = S1 @ drop 100 L"
    by (simp add: S1_def)
  have inR: "r \<in> set (drop 100 L)" if "r \<in> set R" for r
  proof -
    from that obtain k where k: "k \<in> set ns" and r: "r = the (map_of M2 k)"
      by (auto simp: R_def)
    from k dist2 have notS: "k \<notin> tweet_id ` set S1"
      by (auto simp: keys2)
    then have "map_of (?embed S1) k = None"
      by (simp add: map_of_eq_None_iff image_image)
    moreover from k have "k \<in> fst ` set M2"
      using keys2 by (metis Un_iff list.set_map set_append)
    then obtain v where v: "map_of M2 k = Some v"
      by (metis map_of_eq_None_iff not_Some_eq)
    ultimately have "b k = Some v"
      by (simp add: mo2 map_add_def split: option.splits)
    then have "map_of M1 k = Some v"
      by (simp add: mo1 map_add_def)
    then have mem: "(k, v) \<in> set M1"
      by (rule map_of_SomeD)
    with keyed1 have "tweet_id v = k"
      by auto
    with notS have "v \<notin> set S1"
      by auto
    moreover from mem have "v \<in> set L"
      using setL by force
    ultimately have "v \<in> set (drop 100 L)"
      using splitL by (metis Un_iff set_append)
    with r v show ?thesis
      by simp
  qed
  have sortedL: "sorted (map ?f (S1 @ drop 100 L))"
    using splitL by (simp add: L_def)
  then have sortedS: "sorted (map ?f S1)"
    by (simp add: sorted_append)
  have ord: "\<forall>x\<in>set S1. \<forall>y\<in>set R. ?f x \<le> ?f y"
    using sortedL inR by (auto simp: sorted_append)
  have srt: "sort_key ?f (S1 @ R) = S1 @ sort_key ?f R"
    using sortedS ord by (rule sort_key_append_sorted)
  have "take 100 (S1 @ sort_key ?f R) = S1"
  proof (cases "R = []")
    case True
    then show ?thesis
      by (simp add: S1_def)
  next
    case False
    then obtain r where "r \<in> set R"
      by (cases R) auto
    then have "drop 100 L \<noteq> []"
      using inR by fastforce
    then have "length S1 = 100"
      by (simp add: S1_def)
    then show ?thesis
      by simp
  qed
  with a1 a2 v2 srt show ?thesis
    by simp
qed


lemma set_allTweets:
  "set (allTweets ex tws) \<subseteq> set ex \<union> {t \<in> set tws. realTweet t}"
proof -
  have "set (allTweets ex tws) \<subseteq> snd ` set (tweetMap_of ex tws)"
    by (auto simp: allTweets_def sort_newest_first_def tweetMap_values_def dest: in_set_takeD)
  also have "\<dots> \<subseteq> snd ` set (fold tweetMap_set ex []) \<union> set (filter realTweet tws)"
    unfolding tweetMap_of_def Let_def by (rule values_fold_set)
  also have "\<dots> \<subseteq> set ex \<union> {t \<in> set tws. realTweet t}"
    using values_fold_set [of ex "[]"] by auto
  finally show ?thesis .
qed

text \<open>
  The posts the map of a merge holds are the posts that are the latest for their id among
  the loaded posts followed by the accepted new ones, one for every id.
\<close>

lemma set_update_distinct:
  "distinct (map fst m) \<Longrightarrow>
   set (AList.update k v m) = insert (k, v) {p \<in> set m. fst p \<noteq> k}"
proof (induction m)
  case Nil
  then show ?case by simp
next
  case (Cons p m)
  show ?case
  proof (cases "fst p = k")
    case True
    from Cons.prems have "fst p \<notin> fst ` set m"
      by simp
    with True have "\<forall>q\<in>set m. fst q \<noteq> k"
      by (metis imageI)
    with True show ?thesis
      by auto
  next
    case False
    with Cons show ?thesis
      by auto
  qed
qed

lemma latest_by_id_snoc:
  "latest_by_id (ts @ [t]) x \<longleftrightarrow> x = t \<or> (latest_by_id ts x \<and> tweet_id x \<noteq> tweet_id t)"
  by (auto simp: latest_by_id_def)

lemma in_update_distinct:
  "distinct (map fst m) \<Longrightarrow>
   (k', x) \<in> set (AList.update k v m) \<longleftrightarrow> (k' = k \<and> x = v) \<or> ((k', x) \<in> set m \<and> k' \<noteq> k)"
  by (simp add: set_update_distinct)

lemma in_fold_set_latest:
  "(k, x) \<in> set (fold tweetMap_set ts []) \<longleftrightarrow> k = tweet_id x \<and> latest_by_id ts x"
proof (induction ts rule: rev_induct)
  case Nil
  then show ?case by (simp add: latest_by_id_def)
next
  case (snoc t ts)
  have d: "distinct (map fst (fold tweetMap_set ts []))"
    by (rule distinct_fold_set) simp
  have "(k, x) \<in> set (fold tweetMap_set (ts @ [t]) []) \<longleftrightarrow>
      (k = tweet_id t \<and> x = t) \<or> ((k, x) \<in> set (fold tweetMap_set ts []) \<and> k \<noteq> tweet_id t)"
    using in_update_distinct [OF d, of k x "tweet_id t" t] by (simp add: tweetMap_set_def)
  also have "\<dots> \<longleftrightarrow> k = tweet_id x \<and> latest_by_id (ts @ [t]) x"
    unfolding snoc.IH latest_by_id_snoc by auto
  finally show ?case .
qed

lemma dom_fold_set:
  "fst ` set (fold tweetMap_set ts m) = fst ` set m \<union> tweet_id ` set ts"
  by (induction ts arbitrary: m) (auto simp: tweetMap_set_def dom_update)

lemma tweetMap_of_fold:
  "tweetMap_of ex tws = fold tweetMap_set (ex @ filter realTweet tws) []"
  by (simp add: tweetMap_of_def)

lemma candidates_latest:
  "x \<in> set (tweetMap_values (tweetMap_of ex tws)) \<longleftrightarrow>
   latest_by_id (ex @ filter realTweet tws) x"
proof
  assume "x \<in> set (tweetMap_values (tweetMap_of ex tws))"
  then obtain k where "(k, x) \<in> set (fold tweetMap_set (ex @ filter realTweet tws) [])"
    unfolding tweetMap_of_fold tweetMap_values_def by auto
  then show "latest_by_id (ex @ filter realTweet tws) x"
    by (simp only: in_fold_set_latest)
next
  assume "latest_by_id (ex @ filter realTweet tws) x"
  then have "(tweet_id x, x) \<in> set (fold tweetMap_set (ex @ filter realTweet tws) [])"
    by (simp only: in_fold_set_latest)
  then have "snd (tweet_id x, x) \<in> snd ` set (tweetMap_of ex tws)"
    unfolding tweetMap_of_fold by (rule imageI)
  then show "x \<in> set (tweetMap_values (tweetMap_of ex tws))"
    by (simp add: tweetMap_values_def)
qed

lemma length_tweetMap_of:
  "length (tweetMap_of ex tws) = card (tweet_id ` set (ex @ filter realTweet tws))"
proof -
  let ?m = "tweetMap_of ex tws"
  have "distinct (map fst ?m)"
    unfolding tweetMap_of_fold by (rule distinct_fold_set) simp
  then have "length (map fst ?m) = card (set (map fst ?m))"
    by (simp only: distinct_card)
  moreover have "set (map fst ?m) = tweet_id ` set (ex @ filter realTweet tws)"
    unfolding tweetMap_of_fold set_map dom_fold_set by simp
  ultimately show ?thesis
    by simp
qed

lemma length_allTweets_exact:
  "length (allTweets ex tws) = min 100 (card (tweet_id ` set (ex @ filter realTweet tws)))"
  using length_tweetMap_of [of ex tws]
  by (simp add: allTweets_def sort_newest_first_def tweetMap_values_def MAX_STORED_TWEETS_def
      min.commute)

text \<open>
  A store of a hundred posts, newest first, and one newer post merged into it: the new post
  comes first and the oldest stored post is left out.
\<close>

lemma sort_key_snoc_least:
  "sorted (map f xs) \<Longrightarrow> \<forall>x\<in>set xs. f p < f x \<Longrightarrow> sort_key f (xs @ [p]) = p # xs"
proof (induction xs)
  case Nil
  then show ?case by simp
next
  case (Cons x xs)
  then have "sort_key f (xs @ [p]) = p # xs"
    by simp
  moreover have "\<not> f x \<le> f p"
    using Cons.prems(2) by auto
  moreover have "insort_key f x xs = x # xs"
    using Cons.prems(1) by (intro insort_is_Cons) simp
  ultimately show ?case
    by simp
qed

lemma filter_same_key_distinct:
  "distinct (map f xs) \<Longrightarrow> x \<in> set xs \<Longrightarrow> filter (\<lambda>z. f z = f x) xs = [x]"
proof (induction xs)
  case Nil
  then show ?case by simp
next
  case (Cons y ys)
  show ?case
  proof (cases "y = x")
    case True
    with Cons.prems have "\<forall>z\<in>set ys. f z \<noteq> f x"
      by (metis distinct.simps(2) imageI list.simps(9) list.set_map)
    then have "filter (\<lambda>z. f z = f x) ys = []"
      by (simp add: filter_empty_conv)
    with True show ?thesis
      by simp
  next
    case False
    with Cons.prems have "x \<in> set ys" and "f y \<noteq> f x"
      by (auto simp: image_iff)
    with Cons show ?thesis
      by simp
  qed
qed

lemma latest_by_id_distinct:
  "distinct (map tweet_id ts) \<Longrightarrow> x \<in> set ts \<Longrightarrow> latest_by_id ts x"
  by (simp add: latest_by_id_def filter_same_key_distinct)

lemma merge_one_newer:
  assumes "distinct (map tweet_id ex)" and "sorted (map (\<lambda>t. - created_at t) ex)"
    and "realTweet p" and "tweet_id p \<notin> tweet_id ` set ex"
    and "\<forall>x\<in>set ex. created_at x < created_at p"
  shows "allTweets ex [p] = take 100 (p # ex)"
proof -
  have "fold tweetMap_set ex [] = map (\<lambda>t. (tweet_id t, t)) ex"
    using fold_set_fresh [OF assms(1), of "[]"] by simp
  moreover have "tweet_id p \<notin> fst ` set (map (\<lambda>t. (tweet_id t, t)) ex)"
    using assms(4) by (simp add: image_image)
  ultimately have "tweetMap_of ex [p] = map (\<lambda>t. (tweet_id t, t)) ex @ [(tweet_id p, p)]"
    using assms(3) by (simp add: tweetMap_of_def tweetMap_set_def update_fresh)
  then have "tweetMap_values (tweetMap_of ex [p]) = ex @ [p]"
    by (simp add: tweetMap_values_def comp_def)
  moreover have "sort_key (\<lambda>t. - created_at t) (ex @ [p]) = p # ex"
    using assms(2,5) by (intro sort_key_snoc_least) simp_all
  ultimately show ?thesis
    by (simp add: allTweets_def sort_newest_first_def MAX_STORED_TWEETS_def)
qed

lemma countdown_batch:
  fixes n :: nat
  defines "xs \<equiv> map (\<lambda>i. post (replicate (Suc i) CHR ''x'') (int i)) (rev [0..<n])"
  shows "distinct (map tweet_id xs)" and "\<forall>t\<in>set xs. realTweet t"
    and "sorted (map (\<lambda>t. - created_at t) xs)"
proof -
  have "inj_on (\<lambda>i. replicate (Suc i) CHR ''x'') (set (rev [0..<n]))"
    by (rule inj_onI) simp
  then show "distinct (map tweet_id xs)"
    by (simp add: xs_def post_def comp_def distinct_map)
  show "\<forall>t\<in>set xs. realTweet t"
    by (auto simp: xs_def post_def realTweet_def startsWith_def)
  have "map (\<lambda>t. - created_at t) xs = map (\<lambda>i. - int i) (rev [0..<n])"
    by (simp add: xs_def post_def comp_def)
  moreover have "sorted (map (\<lambda>i. - int i) (rev [0..<n]))"
    by (induction n) simp_all
  ultimately show "sorted (map (\<lambda>t. - created_at t) xs)"
    by simp
qed


lemma oldest_of_100_evicted:
  fixes ex :: "tweet list"
  defines "ex \<equiv> map (\<lambda>i. post (replicate (Suc i) CHR ''x'') (int i)) (rev [0..<100])"
  shows "length ex = 100"
    and "latest_by_id (ex @ filter realTweet [post ''new'' 100]) (post ''x'' 0)"
    and "allTweets ex [post ''new'' 100] = post ''new'' 100 # take 99 ex"
    and "post ''x'' 0 \<notin> set (allTweets ex [post ''new'' 100])"
proof -
  define g where "g = (\<lambda>i. post (replicate (Suc i) CHR ''x'') (int i))"
  define p where "p = post ''new'' 100"
  have ex: "ex = map g (rev [0..<100])"
    by (simp add: ex_def g_def)
  note b = countdown_batch [of 100, folded ex_def]
  show len: "length ex = 100"
    by (simp add: ex)
  have g0: "g 0 = post ''x'' 0"
    by (simp add: g_def)
  have inj: "g i = g j \<Longrightarrow> i = j" for i j
    by (simp add: g_def post_def)
  have rp: "realTweet p"
    by (simp add: p_def post_def realTweet_def startsWith_def)
  have idp: "tweet_id p \<notin> tweet_id ` set ex"
    by (auto simp: ex g_def p_def post_def)
  have newer: "\<forall>x\<in>set ex. created_at x < created_at p"
    by (auto simp: ex g_def p_def post_def)
  have d: "distinct (map tweet_id (ex @ [p]))"
    using b(1) idp by simp
  have "g 0 \<in> g ` {0..<100}"
    by (rule imageI) simp
  then have "g 0 \<in> set (ex @ [p])"
    by (simp add: ex)
  then have "latest_by_id (ex @ [p]) (g 0)"
    using d by (intro latest_by_id_distinct)
  then show "latest_by_id (ex @ filter realTweet [post ''new'' 100]) (post ''x'' 0)"
    using rp by (simp add: g0 p_def [symmetric])
  have a: "allTweets ex [p] = take 100 (p # ex)"
    using b(1,3) rp idp newer by (rule merge_one_newer)
  have "take 100 (p # ex) = p # take 99 ex"
    by (simp add: take_Cons')
  with a show "allTweets ex [post ''new'' 100] = post ''new'' 100 # take 99 ex"
    by (simp add: p_def)
  have "take 99 (rev [0..<100]) = rev [1..<100]"
    by (simp add: take_rev)
  then have t: "take 99 ex = map g (rev [1..<100])"
    by (simp add: ex take_map)
  have "g 0 \<notin> g ` {1..<100}"
    using inj by fastforce
  moreover have "g 0 \<noteq> p"
    by (simp add: g_def p_def post_def)
  ultimately have "g 0 \<notin> set (p # take 99 ex)"
    by (simp add: t)
  then show "post ''x'' 0 \<notin> set (allTweets ex [post ''new'' 100])"
    using a by (simp add: g0 p_def [symmetric] take_Cons')
qed

section \<open>Auxiliary facts about the sampler and the credential\<close>

lemma stored_eq_if_files: "files w' = files w \<Longrightarrow> stored w' = stored w"
  by (simp add: stored_files)

lemma files_token [simp]: "files (snd (getTwitterBearerToken oa w)) = files w"
  by (simp add: getTwitterBearerToken_def split: oauth_outcome.splits)

lemma sample_fst:
  "fst (getRandomStoredTweets sh n w) =
     (if stored w = [] then []
      else slice0 (sh (stored w)) (min n (int (length (stored w)))))"
  by (simp add: getRandomStoredTweets_def stored_def split: prod.splits)

lemma sample_files [simp]: "files (snd (getRandomStoredTweets sh n w)) = files w"
proof -
  have "snd (getRandomStoredTweets sh n w) = snd (loadStoredTweets w)"
    by (simp add: getRandomStoredTweets_def split: prod.splits)
  then show ?thesis by simp
qed

lemma sample_eq_if_files:
  "files w' = files w \<Longrightarrow> fst (getRandomStoredTweets sh n w') = fst (getRandomStoredTweets sh n w)"
  using stored_eq_if_files [of w' w] by (simp add: sample_fst)

lemma slice0_take: "0 \<le> e \<Longrightarrow> slice0 xs e = take (nat e) xs"
  by (auto simp: slice0_def Let_def min_def)

section \<open>Auxiliary facts about the handler\<close>

lemma sample_say [simp]:
  "fst (getRandomStoredTweets sh n (say x w)) = fst (getRandomStoredTweets sh n w)"
  by (rule sample_eq_if_files) simp

lemma sample_token [simp]:
  "fst (getRandomStoredTweets sh n (snd (getTwitterBearerToken oa w))) =
   fst (getRandomStoredTweets sh n w)"
  by (rule sample_eq_if_files) simp

lemma on_error_fst:
  "fst (on_error e w) =
     (if fst (getRandomStoredTweets (shuffle e) 10 w) \<noteq> []
      then Json (stored_payload (fst (getRandomStoredTweets (shuffle e) 10 w)))
      else Json (mock_payload (now e)))"
proof -
  obtain s w1 where g: "getRandomStoredTweets (shuffle e) 10 (say ErrorProxy w) = (s, w1)"
    by (cases "getRandomStoredTweets (shuffle e) 10 (say ErrorProxy w)")
  then have "fst (getRandomStoredTweets (shuffle e) 10 w) = s"
    using sample_say [of "shuffle e" 10 ErrorProxy w] by simp
  with g show ?thesis
    by (simp add: on_error_def)
qed

lemma search_no_token:
  assumes "\<not> truthy (fst (getTwitterBearerToken (oauth e) w))"
  shows "fst (twitter_search e w) =
     (if fst (getRandomStoredTweets (shuffle e) 10 w) \<noteq> []
      then Json (stored_payload (fst (getRandomStoredTweets (shuffle e) 10 w)))
      else Status500 ''Failed to authenticate with Twitter'')"
proof -
  obtain tok w1 where t: "getTwitterBearerToken (oauth e) w = (tok, w1)"
    by (cases "getTwitterBearerToken (oauth e) w")
  obtain s w2 where g: "getRandomStoredTweets (shuffle e) 10 (say LogNoToken w1) = (s, w2)"
    by (cases "getRandomStoredTweets (shuffle e) 10 (say LogNoToken w1)")
  have "fst (getRandomStoredTweets (shuffle e) 10 w) = s"
    using sample_say [of "shuffle e" 10 LogNoToken w1] sample_token [of "shuffle e" 10 "oauth e" w] t g
    by simp
  with t g assms show ?thesis
    by (simp add: twitter_search_def)
qed

lemma search_live_failed:
  assumes "truthy (fst (getTwitterBearerToken (oauth e) w))" and "live_failed (upstream e)"
  shows "fst (twitter_search e w) =
     (if fst (getRandomStoredTweets (shuffle e) 10 w) \<noteq> []
      then Json (stored_payload (fst (getRandomStoredTweets (shuffle e) 10 w)))
      else Json (mock_payload (now e)))"
proof -
  obtain tok w1 where t: "getTwitterBearerToken (oauth e) w = (tok, w1)"
    by (cases "getTwitterBearerToken (oauth e) w")
  have s1: "fst (getRandomStoredTweets (shuffle e) 10 w1) = fst (getRandomStoredTweets (shuffle e) 10 w)"
    using sample_token [of "shuffle e" 10 "oauth e" w] t by simp
  have err: "fst (on_error e (say LogFetching w1)) =
     (if fst (getRandomStoredTweets (shuffle e) 10 w) \<noteq> []
      then Json (stored_payload (fst (getRandomStoredTweets (shuffle e) 10 w)))
      else Json (mock_payload (now e)))"
    by (simp add: on_error_fst s1)
  show ?thesis
  proof (cases "upstream e")
    case FetchRejects
    with t assms err show ?thesis
      by (simp add: twitter_search_def)
  next
    case (RespNotOk status body)
    show ?thesis
    proof (cases body)
      case None
      with RespNotOk t assms err show ?thesis
        by (simp add: twitter_search_def)
    next
      case (Some errorText)
      let ?w = "say LogApiFailed (say (ErrorTwitterApi status) (say LogFetching w1))"
      obtain s w3 where g: "getRandomStoredTweets (shuffle e) 10 ?w = (s, w3)"
        by (cases "getRandomStoredTweets (shuffle e) 10 ?w")
      have "fst (getRandomStoredTweets (shuffle e) 10 ?w) = fst (getRandomStoredTweets (shuffle e) 10 w)"
        by (simp add: s1)
      with g have "fst (getRandomStoredTweets (shuffle e) 10 w) = s"
        by simp
      with Some RespNotOk t assms g show ?thesis
        by (simp add: twitter_search_def)
    qed
  next
    case (RespOk body)
    with assms(2) have "body = None"
      by (cases body) (simp_all add: live_failed_def)
    with RespOk t assms err show ?thesis
      by (simp add: twitter_search_def)
  qed
qed


lemma search_empty_live:
  assumes "truthy (fst (getTwitterBearerToken (oauth e) w))"
    and "upstream e = RespOk (Some p)" and "data p = None \<or> data p = Some []"
  shows "twitter_search e w = (Json p, say LogFetching (snd (getTwitterBearerToken (oauth e) w)))"
proof -
  obtain tok w1 where t: "getTwitterBearerToken (oauth e) w = (tok, w1)"
    by (cases "getTwitterBearerToken (oauth e) w")
  from assms(3) show ?thesis
  proof
    assume "data p = None"
    with t assms(1,2) show ?thesis
      by (simp add: twitter_search_def)
  next
    assume "data p = Some []"
    with t assms(1,2) show ?thesis
      by (simp add: twitter_search_def)
  qed
qed

lemma search_live_ok:
  assumes "truthy (fst (getTwitterBearerToken (oauth e) w))" and "upstream e = RespOk (Some p)"
  shows "\<exists>q. fst (twitter_search e w) = Json q"
proof -
  obtain tok w1 where t: "getTwitterBearerToken (oauth e) w = (tok, w1)"
    by (cases "getTwitterBearerToken (oauth e) w")
  show ?thesis
  proof (cases "data p")
    case None
    with t assms show ?thesis
      by (simp add: twitter_search_def)
  next
    case (Some ts)
    with t assms show ?thesis
      by (cases ts) (simp_all add: twitter_search_def Let_def)
  qed
qed

section \<open>Unfolding on concrete inputs\<close>

lemmas concrete_defs =
  saveStoredTweets_def loadStoredTweets_def fs_writeFile_def allTweets_def tweetMap_of_def
  realTweet_def startsWith_def tweetMap_set_def tweetMap_values_def sort_newest_first_def
  MAX_STORED_TWEETS_def TWEETS_DB_FILE_def stored_def say_def
  post_def fresh_world_def world_with_def world_storing_def Let_def

lemmas handler_defs =
  twitter_search_def on_error_def getTwitterBearerToken_def truthy_def getRandomStoredTweets_def
  slice0_def stored_payload_def mock_payload_def request_with_def live_failed_def

section \<open>Properties of the store\<close>

text \<open>
  C9.  Loading from a backing file that does not exist returns the empty sequence and
  prints nothing; when the file cannot be read or cannot be parsed, loading also returns the
  empty sequence, after printing the failure.  In every case \<open>loadStoredTweets\<close> returns a
  value: no failure reaches the caller.
\<close>

theorem load_fail_soft:
  "(files w TWEETS_DB_FILE = None \<longrightarrow> loadStoredTweets w = ([], w)) \<and>
   (files w TWEETS_DB_FILE = Some Unreadable \<or> files w TWEETS_DB_FILE = Some Malformed \<longrightarrow>
      loadStoredTweets w = ([], w\<lparr>console := console w @ [ErrorLoading]\<rparr>))"
  by (auto simp: loadStoredTweets_def say_def)

text \<open>
  The same on a world without the file, on one whose file cannot be read and on one whose
  file does not parse.
\<close>

theorem load_fail_soft_witness:
  "files fresh_world TWEETS_DB_FILE = None \<and>
   loadStoredTweets fresh_world = ([], fresh_world) \<and>
   files (world_with Unreadable) TWEETS_DB_FILE = Some Unreadable \<and>
   loadStoredTweets (world_with Unreadable) =
     ([], (world_with Unreadable)\<lparr>console := [ErrorLoading]\<rparr>) \<and>
   files (world_with Malformed) TWEETS_DB_FILE = Some Malformed \<and>
   loadStoredTweets (world_with Malformed) =
     ([], (world_with Malformed)\<lparr>console := [ErrorLoading]\<rparr>)"
proof -
  have h1: "files fresh_world TWEETS_DB_FILE = None"
    by (simp add: fresh_world_def)
  have h2: "files (world_with Unreadable) TWEETS_DB_FILE = Some Unreadable"
    by (simp add: world_with_def)
  have h3: "files (world_with Malformed) TWEETS_DB_FILE = Some Malformed"
    by (simp add: world_with_def)
  have c: "console (world_with f) = []" for f
    by (simp add: world_with_def fresh_world_def)
  show ?thesis
    using load_fail_soft [of fresh_world] load_fail_soft [of "world_with Unreadable"]
      load_fail_soft [of "world_with Malformed"] h1 h2 h3
    by (simp add: c)
qed

text \<open>
  C2, as the code has it.  When the write of a merge fails, the failure is printed and not
  propagated, and the merge returns the empty sequence to its caller, not the merged
  sequence it had computed.
\<close>

theorem write_failure_returns_empty:
  "out \<noteq> WriteOk \<Longrightarrow>
     fst (saveStoredTweets tws out t w) = [] \<and>
     console (snd (saveStoredTweets tws out t w)) = console (snd (loadStoredTweets w)) @ [ErrorSaving]"
  by (cases out) (simp_all add: save_unfold say_def)

theorem write_failure_returns_empty_witness:
  "WriteFails \<noteq> WriteOk \<and>
   fst (saveStoredTweets [post ''a'' 7] WriteFails 0 fresh_world) = [] \<and>
   console (snd (saveStoredTweets [post ''a'' 7] WriteFails 0 fresh_world)) = [ErrorSaving]"
  using write_failure_returns_empty [of WriteFails "[post ''a'' 7]" 0 fresh_world]
  by (simp add: loadStoredTweets_def fresh_world_def)

text \<open>
  The claim as the specification words it fails: merging one post into an empty store
  computes a one-post sequence, and with a failing write the caller receives the empty one.
\<close>

theorem write_failure_loses_merged_counterexample:
  "allTweets (stored fresh_world) [post ''a'' 7] = [post ''a'' 7] \<and>
   fst (saveStoredTweets [post ''a'' 7] WriteFails 0 fresh_world) = []"
  by (simp add: concrete_defs)

text \<open>
  C3, as the code has it.  A merge writes its result straight into the backing file, with one
  \<open>writeFile\<close> on the path of that file: it touches no other path, so there is no temporary
  file and no rename.  After the call the backing file holds the new contents when the write
  completed, what it held before when the write was refused, and unparseable text when the
  write stopped midway.
\<close>

theorem write_in_place:
  "(\<forall>p. p \<noteq> TWEETS_DB_FILE \<longrightarrow> files (snd (saveStoredTweets tws out t w)) p = files w p) \<and>
   files (snd (saveStoredTweets tws out t w)) TWEETS_DB_FILE =
     (case out of
        WriteOk \<Rightarrow> Some (Parsed \<lparr>tweets = Some (allTweets (stored w) tws), lastUpdated = t\<rparr>)
      | WriteFails \<Rightarrow> files w TWEETS_DB_FILE
      | WriteTorn \<Rightarrow> Some Malformed)"
  by (cases out) (simp_all add: save_unfold)

theorem write_in_place_witness:
  "''tweets_database.json.tmp'' \<noteq> TWEETS_DB_FILE \<and>
   files (snd (saveStoredTweets [post ''b'' 9] WriteOk 1 (world_storing [post ''a'' 7])))
     ''tweets_database.json.tmp'' = None \<and>
   files (snd (saveStoredTweets [post ''b'' 9] WriteOk 1 (world_storing [post ''a'' 7])))
     TWEETS_DB_FILE = Some (Parsed \<lparr>tweets = Some [post ''b'' 9, post ''a'' 7], lastUpdated = 1\<rparr>)"
  using write_in_place [of "[post ''b'' 9]" WriteOk 1 "world_storing [post ''a'' 7]"]
  by (simp add: concrete_defs)

text \<open>
  The claim as the specification words it fails: a write that stops midway does not leave the
  previous version in place.  The file held one post; afterwards it does not parse and the
  store reads as empty.
\<close>

theorem torn_write_counterexample:
  "stored (world_storing [post ''a'' 7]) = [post ''a'' 7] \<and>
   files (snd (saveStoredTweets [post ''b'' 9] WriteTorn 1 (world_storing [post ''a'' 7])))
     TWEETS_DB_FILE = Some Malformed \<and>
   stored (snd (saveStoredTweets [post ''b'' 9] WriteTorn 1 (world_storing [post ''a'' 7]))) = []"
  by (simp add: concrete_defs)

text \<open>
  C5, as the code has it.  What a merge returns is within the cap \<open>MAX_STORED_TWEETS\<close> (100).
  From any state of the backing file, the store is within the cap after every merge whose
  write is not refused and after every merge that follows one, and a store within the cap
  stays within it whatever the writes do.  A merge whose write is refused leaves the store as
  it was, so a backing file that holds more than a hundred posts keeps them until a write goes
  through.  A completed merge keeps a hundred posts or one post for every id, whichever is
  less; each of them is the latest post for its id among the stored posts followed by the
  accepted new ones; and every such post that is left out is no newer than every post kept.
\<close>

theorem store_capped:
  "length (fst (saveStoredTweets tws out t w)) \<le> MAX_STORED_TWEETS \<and>
   (out \<noteq> WriteFails \<longrightarrow>
      length (stored (snd (saveStoredTweets tws out t w))) \<le> MAX_STORED_TWEETS) \<and>
   ((\<exists>c\<in>set calls. fst (snd c) \<noteq> WriteFails) \<or> length (stored w) \<le> MAX_STORED_TWEETS \<longrightarrow>
      length (stored (merges calls w)) \<le> MAX_STORED_TWEETS) \<and>
   ((\<forall>c\<in>set calls. fst (snd c) = WriteFails) \<longrightarrow> stored (merges calls w) = stored w) \<and>
   length (stored (snd (saveStoredTweets tws WriteOk t w))) =
     min MAX_STORED_TWEETS (card (tweet_id ` set (stored w @ filter realTweet tws))) \<and>
   (\<forall>y\<in>set (stored (snd (saveStoredTweets tws WriteOk t w))).
      latest_by_id (stored w @ filter realTweet tws) y) \<and>
   (\<forall>x. latest_by_id (stored w @ filter realTweet tws) x \<and>
        x \<notin> set (stored (snd (saveStoredTweets tws WriteOk t w))) \<longrightarrow>
      (\<forall>y\<in>set (stored (snd (saveStoredTweets tws WriteOk t w))). created_at x \<le> created_at y))"
proof -
  let ?after = "stored (snd (saveStoredTweets tws WriteOk t w))"
  let ?L = "stored w @ filter realTweet tws"
  have after: "?after = allTweets (stored w) tws"
    by (rule save_ok_stored)
  have 1: "length (fst (saveStoredTweets tws out t w)) \<le> 100"
    using length_allTweets [of "stored w" tws] by (cases out) (simp_all add: save_unfold)
  have 2: "length (stored (snd (saveStoredTweets tws out t w))) \<le> 100" if "out \<noteq> WriteFails"
    using that length_allTweets [of "stored w" tws]
    by (cases out) (simp_all add: save_ok_stored save_torn_stored)
  have 3: "length (stored (merges calls w)) \<le> 100"
    if "(\<exists>c\<in>set calls. fst (snd c) \<noteq> WriteFails) \<or> length (stored w) \<le> 100"
    using that merges_some_write [of calls w] merges_keep_cap [of w calls] by blast
  have 4: "stored (merges calls w) = stored w" if "\<forall>c\<in>set calls. fst (snd c) = WriteFails"
    using that by (rule merges_all_fail)
  have 5: "length ?after = min 100 (card (tweet_id ` set ?L))"
    unfolding after by (rule length_allTweets_exact)
  have 6: "latest_by_id ?L y" if "y \<in> set ?after" for y
  proof -
    from that have "y \<in> set (tweetMap_values (tweetMap_of (stored w) tws))"
      unfolding after allTweets_def sort_newest_first_def by (auto dest: in_set_takeD)
    then show ?thesis
      by (simp only: candidates_latest)
  qed
  have 7: "created_at x \<le> created_at y"
    if "latest_by_id ?L x" "x \<notin> set ?after" "y \<in> set ?after" for x y
  proof -
    from that(1) have "x \<in> set (tweetMap_values (tweetMap_of (stored w) tws))"
      by (simp only: candidates_latest)
    then show ?thesis
      using that(2,3) unfolding after by (rule dropped_older)
  qed
  from 1 2 3 4 5 6 7 show ?thesis
    unfolding MAX_STORED_TWEETS_def by blast
qed

text \<open>
  A refused and then a completed write on a backing file of 101 posts; a refused write on a
  store of a hundred; and one newer post merged into that store, which leaves out its oldest.
\<close>

theorem store_capped_witness:
  "length (stored (merges [([], WriteFails, 0), ([post ''new'' 100], WriteOk, 1)]
      (world_storing (map (\<lambda>i. post (replicate (Suc i) CHR ''x'') (int i)) (rev [0..<101])))))
     \<le> MAX_STORED_TWEETS \<and>
   stored (merges [([post ''new'' 100], WriteFails, 0)]
      (world_storing (map (\<lambda>i. post (replicate (Suc i) CHR ''x'') (int i)) (rev [0..<100]))))
     = map (\<lambda>i. post (replicate (Suc i) CHR ''x'') (int i)) (rev [0..<100]) \<and>
   latest_by_id
     (stored (world_storing (map (\<lambda>i. post (replicate (Suc i) CHR ''x'') (int i)) (rev [0..<100])))
        @ filter realTweet [post ''new'' 100])
     (post ''x'' 0) \<and>
   post ''x'' 0 \<notin> set (stored (snd (saveStoredTweets [post ''new'' 100] WriteOk 0
      (world_storing (map (\<lambda>i. post (replicate (Suc i) CHR ''x'') (int i)) (rev [0..<100])))))) \<and>
   hd (stored (snd (saveStoredTweets [post ''new'' 100] WriteOk 0
      (world_storing (map (\<lambda>i. post (replicate (Suc i) CHR ''x'') (int i)) (rev [0..<100]))))))
     = post ''new'' 100 \<and>
   length (stored (snd (saveStoredTweets [post ''new'' 100] WriteOk 0
      (world_storing (map (\<lambda>i. post (replicate (Suc i) CHR ''x'') (int i)) (rev [0..<100]))))))
     = 100 \<and>
   created_at (post ''x'' 0) \<le> created_at (post ''new'' 100)"
proof -
  let ?g = "\<lambda>i. post (replicate (Suc i) CHR ''x'') (int i)"
  let ?ex = "map ?g (rev [0..<100])"
  let ?big = "map ?g (rev [0..<101])"
  let ?p = "post ''new'' 100"
  let ?after = "stored (snd (saveStoredTweets [?p] WriteOk 0 (world_storing ?ex)))"
  let ?calls = "[([], WriteFails, 0), ([?p], WriteOk, 1)]"
  have "\<exists>c\<in>set ?calls. fst (snd c) \<noteq> WriteFails"
    by simp
  then have 1: "length (stored (merges ?calls (world_storing ?big))) \<le> MAX_STORED_TWEETS"
    using store_capped [of "[]" WriteOk 0 "world_storing ?big" ?calls] by blast
  have "\<forall>c\<in>set [([?p], WriteFails, 0 :: int)]. fst (snd c) = WriteFails"
    by simp
  then have "stored (merges [([?p], WriteFails, 0)] (world_storing ?ex)) = stored (world_storing ?ex)"
    using store_capped [of "[]" WriteOk 0 "world_storing ?ex" "[([?p], WriteFails, 0)]"] by blast
  then have 2: "stored (merges [([?p], WriteFails, 0)] (world_storing ?ex)) = ?ex"
    by (simp only: stored_world_storing)
  have after: "?after = allTweets ?ex [?p]"
    by (simp only: save_ok_stored stored_world_storing)
  have 3: "latest_by_id (stored (world_storing ?ex) @ filter realTweet [?p]) (post ''x'' 0)"
    unfolding stored_world_storing by (rule oldest_of_100_evicted)
  have 4: "post ''x'' 0 \<notin> set ?after"
    unfolding after by (rule oldest_of_100_evicted)
  have a: "?after = ?p # take 99 ?ex"
    unfolding after by (rule oldest_of_100_evicted)
  have 5: "hd ?after = ?p"
    by (simp only: a list.sel)
  have "length ?ex = 100"
    by simp
  then have 6: "length ?after = 100"
    by (simp only: a) simp
  have "?p \<in> set ?after"
    by (simp only: a) simp
  then have 7: "created_at (post ''x'' 0) \<le> created_at ?p"
    using store_capped [of "[?p]" WriteOk 0 "world_storing ?ex" "[]"] 3 4 by blast
  show ?thesis
    using 1 2 3 4 5 6 7 by blast
qed

text \<open>
  The claim as the specification words it fails for a backing file that holds more than a
  hundred posts: after a merge whose write is refused the store still holds them all.
\<close>

theorem oversized_store_counterexample:
  "\<not> length (stored (snd (saveStoredTweets [] WriteFails 0
      (world_storing (map (\<lambda>i. post (replicate (Suc i) CHR ''x'') (int i)) (rev [0..<101]))))))
     \<le> MAX_STORED_TWEETS"
  by (simp add: save_fails_stored stored_world_storing MAX_STORED_TWEETS_def)

text \<open>
  C6.  After a merge the stored sequence is ordered by \<open>created_at\<close>, newest first, and its
  first element is at least as new as every stored element.  A merge whose write does not
  complete stores no new sequence, and leaves an ordered store ordered.
\<close>

theorem newest_first:
  "sorted_wrt (\<lambda>a b. created_at b \<le> created_at a) (stored (snd (saveStoredTweets tws WriteOk t w))) \<and>
   (\<forall>x\<in>set (stored (snd (saveStoredTweets tws WriteOk t w))).
      created_at x \<le> created_at (hd (stored (snd (saveStoredTweets tws WriteOk t w))))) \<and>
   (sorted_wrt (\<lambda>a b. created_at b \<le> created_at a) (stored w) \<longrightarrow>
      sorted_wrt (\<lambda>a b. created_at b \<le> created_at a) (stored (snd (saveStoredTweets tws out t w))))"
proof -
  let ?s = "allTweets (stored w) tws"
  have s: "sorted (map (\<lambda>t. - created_at t) ?s)"
    by (rule sorted_allTweets)
  then have 1: "sorted_wrt (\<lambda>a b. created_at b \<le> created_at a) ?s"
    by (simp add: sorted_map)
  have 2: "\<forall>x\<in>set ?s. created_at x \<le> created_at (hd ?s)"
  proof (cases ?s)
    case Nil
    then show ?thesis by simp
  next
    case (Cons y ys)
    with 1 show ?thesis by auto
  qed
  have 3: "sorted_wrt (\<lambda>a b. created_at b \<le> created_at a) (stored (snd (saveStoredTweets tws out t w)))"
    if "sorted_wrt (\<lambda>a b. created_at b \<le> created_at a) (stored w)"
    using that 1 by (cases out) (simp_all add: save_ok_stored save_fails_stored save_torn_stored)
  from 1 2 3 show ?thesis
    by (simp add: save_ok_stored)
qed

text \<open>Two posts merged into a store of two; and a merge whose write is refused.\<close>

theorem newest_first_witness:
  "stored (snd (saveStoredTweets [post ''b'' 9, post ''c'' 30] WriteOk 0 (world_storing [post ''a'' 7, post ''d'' 50])))
     = [post ''d'' 50, post ''c'' 30, post ''b'' 9, post ''a'' 7] \<and>
   created_at (post ''a'' 7)
     \<le> created_at (hd (stored (snd (saveStoredTweets [post ''b'' 9, post ''c'' 30] WriteOk 0
                                   (world_storing [post ''a'' 7, post ''d'' 50]))))) \<and>
   sorted_wrt (\<lambda>a b. created_at b \<le> created_at a) (stored (world_storing [post ''d'' 50, post ''a'' 7])) \<and>
   sorted_wrt (\<lambda>a b. created_at b \<le> created_at a)
     (stored (snd (saveStoredTweets [post ''c'' 30] WriteFails 0 (world_storing [post ''d'' 50, post ''a'' 7]))))"
proof -
  let ?w = "world_storing [post ''a'' 7, post ''d'' 50]"
  let ?w' = "world_storing [post ''d'' 50, post ''a'' 7]"
  let ?after = "stored (snd (saveStoredTweets [post ''b'' 9, post ''c'' 30] WriteOk 0 ?w))"
  have v: "?after = [post ''d'' 50, post ''c'' 30, post ''b'' 9, post ''a'' 7]"
    by (simp add: concrete_defs)
  have m: "post ''a'' 7 \<in> set ?after"
    by (simp only: v) simp
  have 1: "created_at (post ''a'' 7) \<le> created_at (hd ?after)"
    using newest_first [of "[post ''b'' 9, post ''c'' 30]" 0 ?w WriteOk] m by blast
  have h: "sorted_wrt (\<lambda>a b. created_at b \<le> created_at a) (stored ?w')"
    by (simp add: concrete_defs)
  then have 2: "sorted_wrt (\<lambda>a b. created_at b \<le> created_at a)
      (stored (snd (saveStoredTweets [post ''c'' 30] WriteFails 0 ?w')))"
    using newest_first [of "[post ''c'' 30]" 0 ?w' WriteFails] by blast
  show ?thesis
    using v 1 h 2 by blast
qed

section \<open>Properties of the merge\<close>

text \<open>
  C7.  Merging the same batch twice gives the store that merging it once gives: the second
  merge returns and stores the very sequence the first one did, so the same ids in the same
  order.  This holds for every batch, synthetic posts or not, when both writes complete.
\<close>

theorem merge_idempotent:
  "fst (saveStoredTweets tws WriteOk t2 (snd (saveStoredTweets tws WriteOk t1 w)))
     = fst (saveStoredTweets tws WriteOk t1 w) \<and>
   stored (snd (saveStoredTweets tws WriteOk t2 (snd (saveStoredTweets tws WriteOk t1 w))))
     = stored (snd (saveStoredTweets tws WriteOk t1 w))"
  by (simp add: save_ok_fst save_ok_stored allTweets_idem)

text \<open>A batch that names one id twice, merged twice into a store that already has that id.\<close>

theorem merge_idempotent_witness:
  "stored (snd (saveStoredTweets [post ''b'' 7, post ''c'' 30, post ''b'' 9] WriteOk 1
                  (world_storing [post ''a'' 7, post ''b'' 2])))
     = [post ''c'' 30, post ''b'' 9, post ''a'' 7] \<and>
   stored (snd (saveStoredTweets [post ''b'' 7, post ''c'' 30, post ''b'' 9] WriteOk 2
            (snd (saveStoredTweets [post ''b'' 7, post ''c'' 30, post ''b'' 9] WriteOk 1
                    (world_storing [post ''a'' 7, post ''b'' 2])))))
     = [post ''c'' 30, post ''b'' 9, post ''a'' 7]"
proof -
  let ?tws = "[post ''b'' 7, post ''c'' 30, post ''b'' 9]"
  let ?w = "world_storing [post ''a'' 7, post ''b'' 2]"
  have v: "stored (snd (saveStoredTweets ?tws WriteOk 1 ?w)) = [post ''c'' 30, post ''b'' 9, post ''a'' 7]"
    by (simp add: concrete_defs)
  with merge_idempotent [of ?tws 2 1 ?w] show ?thesis
    by simp
qed

text \<open>
  C4, as the code has it.  The merge drops from the batch every post that is flagged
  \<open>isMockData\<close> or whose id begins with \<open>mock_\<close> or \<open>client_mock_\<close>: every post in the store
  after a merge was in the store before it, or is a post of the batch that passes this
  filter.  So a store that holds no flagged post holds none after a merge.
\<close>

theorem merge_filters_batch:
  "(\<forall>x\<in>set (stored (snd (saveStoredTweets tws out t w))).
      x \<in> set (stored w) \<or>
      (x \<in> set tws \<and> \<not> isMockData x \<and> \<not> startsWith (tweet_id x) ''mock_'' \<and>
       \<not> startsWith (tweet_id x) ''client_mock_'')) \<and>
   ((\<forall>x\<in>set (stored w). \<not> isMockData x) \<longrightarrow>
      (\<forall>x\<in>set (stored (snd (saveStoredTweets tws out t w))). \<not> isMockData x))"
proof -
  have "set (stored (snd (saveStoredTweets tws out t w))) \<subseteq>
      set (stored w) \<union> {x \<in> set tws. realTweet x}"
    using set_allTweets [of "stored w" tws]
    by (cases out) (simp_all add: save_ok_stored save_fails_stored save_torn_stored)
  then show ?thesis
    by (auto simp: realTweet_def)
qed

text \<open>A batch of one live post and the three placeholder posts.\<close>

theorem merge_filters_batch_witness:
  "stored (snd (saveStoredTweets (post ''b'' 9 # getMockTweets 5) WriteOk 0
                  (world_storing [post ''a'' 7])))
     = [post ''b'' 9, post ''a'' 7] \<and>
   post ''b'' 9 \<in> set (post ''b'' 9 # getMockTweets 5) \<and>
   \<not> isMockData (post ''b'' 9) \<and> \<not> isMockData (post ''a'' 7)"
proof -
  let ?tws = "post ''b'' 9 # getMockTweets 5"
  let ?w = "world_storing [post ''a'' 7]"
  have v: "stored (snd (saveStoredTweets ?tws WriteOk 0 ?w)) = [post ''b'' 9, post ''a'' 7]"
    by (simp add: concrete_defs getMockTweets_def)
  have s: "stored ?w = [post ''a'' 7]"
    by (simp add: concrete_defs)
  have a: "\<not> isMockData (post ''a'' 7)"
    by (simp add: post_def)
  from merge_filters_batch [of ?tws WriteOk 0 ?w] v s a
  have "\<not> isMockData (post ''b'' 9)"
    by simp
  with v a show ?thesis
    by simp
qed

text \<open>
  The claim as the specification words it fails.  Not only posts of a live search are
  persisted: on an empty store the start-up routine persists its five sample posts through
  the merge.  And a flagged post can be in the store after a merge: the filter reads the new
  batch only, so flagged posts that the backing file already holds stay.
\<close>

theorem sample_posts_persisted_counterexample:
  "stored (initializeSampleTweets WriteOk 0 fresh_world) = sampleTweets 0 \<and>
   length (sampleTweets 0) = 5 \<and>
   stored (snd (saveStoredTweets [post ''a'' 7] WriteOk 0 (world_storing (getMockTweets 0))))
     = post ''a'' 7 # getMockTweets 0 \<and>
   isMockData (hd (getMockTweets 0))"
  by (simp add: initializeSampleTweets_def sampleTweets_def getMockTweets_def concrete_defs)

section \<open>Properties of the sampler\<close>

text \<open>
  C8.  For a positive count \<open>n\<close> and a store of \<open>k\<close> posts, the sampler returns exactly
  \<open>min n k\<close> posts, each of them a post of the store (and none more often than the store
  holds it); on an empty store it returns the empty sequence.  The random sort is any
  rearrangement of the loaded posts.
\<close>

theorem sample_bound:
  assumes "0 < n" and "mset (sh (stored w)) = mset (stored w)"
  shows "length (fst (getRandomStoredTweets sh n w)) = min (nat n) (length (stored w)) \<and>
         mset (fst (getRandomStoredTweets sh n w)) \<subseteq># mset (stored w) \<and>
         set (fst (getRandomStoredTweets sh n w)) \<subseteq> set (stored w) \<and>
         (stored w = [] \<longrightarrow> fst (getRandomStoredTweets sh n w) = [])"
proof (cases "stored w = []")
  case True
  then show ?thesis by (simp add: sample_fst)
next
  case False
  let ?k = "min n (int (length (stored w)))"
  have len: "length (sh (stored w)) = length (stored w)"
    using assms(2) by (metis size_mset)
  have k: "0 \<le> ?k" using assms(1) by simp
  have r: "fst (getRandomStoredTweets sh n w) = take (nat ?k) (sh (stored w))"
    using False k by (simp add: sample_fst slice0_take)
  have "mset (take (nat ?k) (sh (stored w))) \<subseteq># mset (sh (stored w))"
    by (metis append_take_drop_id mset_append mset_subset_eq_add_left)
  then have sub: "mset (fst (getRandomStoredTweets sh n w)) \<subseteq># mset (stored w)"
    using r assms(2) by simp
  have "length (fst (getRandomStoredTweets sh n w)) = min (nat n) (length (stored w))"
    using r len assms(1) by (simp add: min_def) linarith
  moreover from sub have "set (fst (getRandomStoredTweets sh n w)) \<subseteq> set (stored w)"
    using set_mset_mono [OF sub] by simp
  ultimately show ?thesis using sub False by simp
qed

text \<open>Two of three stored posts, with the reversal as the rearrangement; and the empty store.\<close>

theorem sample_bound_witness:
  "(0::int) < 2 \<and>
   mset (rev (stored (world_storing [post ''a'' 7, post ''b'' 9, post ''c'' 3])))
     = mset (stored (world_storing [post ''a'' 7, post ''b'' 9, post ''c'' 3])) \<and>
   fst (getRandomStoredTweets rev 2 (world_storing [post ''a'' 7, post ''b'' 9, post ''c'' 3]))
     = [post ''c'' 3, post ''b'' 9] \<and>
   length (fst (getRandomStoredTweets rev 2 (world_storing [post ''a'' 7, post ''b'' 9, post ''c'' 3])))
     = min (nat 2) (length (stored (world_storing [post ''a'' 7, post ''b'' 9, post ''c'' 3]))) \<and>
   fst (getRandomStoredTweets rev 2 fresh_world) = []"
proof -
  let ?w = "world_storing [post ''a'' 7, post ''b'' 9, post ''c'' 3]"
  have h1: "(0::int) < 2"
    by simp
  have h2: "mset (rev (stored ?w)) = mset (stored ?w)"
    by simp
  have h3: "mset (rev (stored fresh_world)) = mset (stored fresh_world)"
    by simp
  have v: "fst (getRandomStoredTweets rev 2 ?w) = [post ''c'' 3, post ''b'' 9]"
    by (simp add: getRandomStoredTweets_def slice0_def loadStoredTweets_def world_storing_def
        world_with_def fresh_world_def say_def)
  have e: "stored fresh_world = []"
    by (simp add: stored_files fresh_world_def)
  have c: "length (fst (getRandomStoredTweets rev 2 ?w)) = min (nat 2) (length (stored ?w))"
    using sample_bound [of 2 rev ?w, OF h1 h2] by (rule conjunct1)
  have d: "fst (getRandomStoredTweets rev 2 fresh_world) = []"
    using sample_bound [of 2 rev fresh_world, OF h1 h3] e by blast
  show ?thesis
    using h1 h2 v c d by blast
qed

section \<open>Properties of the handler\<close>

text \<open>
  C1, as the code has it.  When no credential is available or the live search fails, the
  handler answers with posts drawn from the store whenever the sample is not empty.  When
  the sample is empty, it answers with the three fixed placeholder posts if there was a
  credential and the live search failed, and with status 500 and an authentication error if
  there was no credential.  That is the only error response: every request that has a
  credential or finds a non-empty sample receives a successful answer.
\<close>

theorem fallback_cascade:
  "(\<not> truthy (fst (getTwitterBearerToken (oauth e) w)) \<or> live_failed (upstream e) \<longrightarrow>
      fst (twitter_search e w) =
        (if fst (getRandomStoredTweets (shuffle e) 10 w) \<noteq> []
         then Json (stored_payload (fst (getRandomStoredTweets (shuffle e) 10 w)))
         else if truthy (fst (getTwitterBearerToken (oauth e) w))
           then Json (mock_payload (now e))
           else Status500 ''Failed to authenticate with Twitter'')) \<and>
   (truthy (fst (getTwitterBearerToken (oauth e) w)) \<or>
    fst (getRandomStoredTweets (shuffle e) 10 w) \<noteq> [] \<longrightarrow>
      (\<exists>q. fst (twitter_search e w) = Json q)) \<and>
   data (mock_payload (now e)) = Some (getMockTweets (now e)) \<and>
   length (getMockTweets (now e)) = 3"
proof -
  let ?tok = "truthy (fst (getTwitterBearerToken (oauth e) w))"
  let ?s = "fst (getRandomStoredTweets (shuffle e) 10 w)"
  have a: "\<not> ?tok \<or> live_failed (upstream e) \<Longrightarrow>
      fst (twitter_search e w) =
        (if ?s \<noteq> [] then Json (stored_payload ?s)
         else if ?tok then Json (mock_payload (now e))
           else Status500 ''Failed to authenticate with Twitter'')"
    using search_no_token [of e w] search_live_failed [of e w]
    by (cases ?tok) simp_all
  have b: "\<exists>q. fst (twitter_search e w) = Json q" if "?tok \<or> ?s \<noteq> []"
  proof (cases "\<not> ?tok \<or> live_failed (upstream e)")
    case True
    with a that show ?thesis
      by auto
  next
    case False
    then obtain p where "upstream e = RespOk (Some p)"
      by (auto simp: live_failed_def split: upstream.splits option.splits)
    with False show ?thesis
      using search_live_ok [of e w p] by simp
  qed
  from a b show ?thesis
    by (simp add: mock_payload_def getMockTweets_def)
qed

text \<open>
  A rate-limited search over a store of two posts, and a rejected search over an empty store.
\<close>

theorem fallback_cascade_witness:
  "live_failed (upstream (request_with OauthThrows (RespNotOk 429 (Some ''Too Many Requests'')))) \<and>
   fst (twitter_search (request_with OauthThrows (RespNotOk 429 (Some ''Too Many Requests'')))
         ((world_storing [post ''a'' 7, post ''b'' 9])\<lparr>twitterBearerToken := Some ''tok''\<rparr>))
     = Json (stored_payload [post ''b'' 9, post ''a'' 7]) \<and>
   live_failed (upstream (request_with OauthThrows FetchRejects)) \<and>
   fst (twitter_search (request_with OauthThrows FetchRejects)
         (fresh_world\<lparr>twitterBearerToken := Some ''tok''\<rparr>))
     = Json (mock_payload 0)"
proof -
  let ?e1 = "request_with OauthThrows (RespNotOk 429 (Some ''Too Many Requests''))"
  let ?w1 = "(world_storing [post ''a'' 7, post ''b'' 9])\<lparr>twitterBearerToken := Some ''tok''\<rparr>"
  let ?e2 = "request_with OauthThrows FetchRejects"
  let ?w2 = "fresh_world\<lparr>twitterBearerToken := Some ''tok''\<rparr>"
  have h1: "live_failed (upstream ?e1)"
    by (simp add: request_with_def live_failed_def)
  have h2: "live_failed (upstream ?e2)"
    by (simp add: request_with_def live_failed_def)
  have s1: "fst (getRandomStoredTweets (shuffle ?e1) 10 ?w1) = [post ''b'' 9, post ''a'' 7]"
    by (simp add: handler_defs concrete_defs)
  have s2: "fst (getRandomStoredTweets (shuffle ?e2) 10 ?w2) = []"
    by (simp add: handler_defs concrete_defs)
  have t2: "truthy (fst (getTwitterBearerToken (oauth ?e2) ?w2))"
    by (simp add: handler_defs concrete_defs)
  have n2: "now ?e2 = 0"
    by (simp add: request_with_def)
  have r1: "fst (twitter_search ?e1 ?w1) = Json (stored_payload [post ''b'' 9, post ''a'' 7])"
    using fallback_cascade [of ?e1 ?w1] h1 s1 by simp
  have r2: "fst (twitter_search ?e2 ?w2) = Json (mock_payload 0)"
    using fallback_cascade [of ?e2 ?w2] h2 s2 t2 n2 by simp
  show ?thesis
    using h1 h2 r1 r2 by blast
qed

text \<open>
  The claim as the specification words it fails: with no credential and an empty store the
  caller receives the error response.
\<close>

theorem no_credential_empty_store_counterexample:
  "fst (getTwitterBearerToken (oauth (request_with OauthThrows FetchRejects)) fresh_world) = None \<and>
   stored fresh_world = [] \<and>
   fst (twitter_search (request_with OauthThrows FetchRejects) fresh_world)
     = Status500 ''Failed to authenticate with Twitter''"
  by (simp add: handler_defs concrete_defs)

text \<open>
  C10.  When the live search succeeds and its payload has no posts (no \<open>data\<close> field, or an
  empty one), the handler sends the upstream payload as it is: it merges nothing, the backing
  file and the store are untouched, and neither stored nor placeholder posts are put in.
\<close>

theorem empty_live_result_passed_through:
  assumes "truthy (fst (getTwitterBearerToken (oauth e) w))"
    and "upstream e = RespOk (Some p)" and "data p = None \<or> data p = Some []"
  shows "fst (twitter_search e w) = Json p \<and>
         files (snd (twitter_search e w)) = files w \<and>
         stored (snd (twitter_search e w)) = stored w \<and>
         console (snd (twitter_search e w)) =
           console (snd (getTwitterBearerToken (oauth e) w)) @ [LogFetching]"
proof -
  have "twitter_search e w = (Json p, say LogFetching (snd (getTwitterBearerToken (oauth e) w)))"
    using assms by (rule search_empty_live)
  then show ?thesis
    by (simp add: stored_files) (simp add: say_def)
qed

theorem empty_live_result_passed_through_witness:
  "truthy (fst (getTwitterBearerToken
      (oauth (request_with OauthThrows (RespOk (Some \<lparr>data = None, includes_f = None,
         isStoredData = False, rest = ''meta''\<rparr>))))
      ((world_storing [post ''a'' 7])\<lparr>twitterBearerToken := Some ''tok''\<rparr>))) \<and>
   fst (twitter_search
      (request_with OauthThrows (RespOk (Some \<lparr>data = None, includes_f = None,
         isStoredData = False, rest = ''meta''\<rparr>)))
      ((world_storing [post ''a'' 7])\<lparr>twitterBearerToken := Some ''tok''\<rparr>))
     = Json \<lparr>data = None, includes_f = None, isStoredData = False, rest = ''meta''\<rparr> \<and>
   stored (snd (twitter_search
      (request_with OauthThrows (RespOk (Some \<lparr>data = None, includes_f = None,
         isStoredData = False, rest = ''meta''\<rparr>)))
      ((world_storing [post ''a'' 7])\<lparr>twitterBearerToken := Some ''tok''\<rparr>)))
     = [post ''a'' 7]"
proof -
  let ?p = "\<lparr>data = None, includes_f = None, isStoredData = False, rest = ''meta''\<rparr>"
  let ?e = "request_with OauthThrows (RespOk (Some ?p))"
  let ?w = "(world_storing [post ''a'' 7])\<lparr>twitterBearerToken := Some ''tok''\<rparr>"
  have h1: "truthy (fst (getTwitterBearerToken (oauth ?e) ?w))"
    by (simp add: handler_defs concrete_defs)
  have h2: "upstream ?e = RespOk (Some ?p)"
    by (simp add: request_with_def)
  have h3: "data ?p = None \<or> data ?p = Some []"
    by simp
  have s: "stored ?w = [post ''a'' 7]"
    by (simp add: stored_files concrete_defs)
  show ?thesis
    using empty_live_result_passed_through [of ?e ?w ?p, OF h1 h2 h3] h1 s by simp
qed

end
